theory Spec2Isabelle
  imports Main "HOL-Library.Sublist" "HOL-Library.AList" "HOL-Library.Monad_Syntax"
begin

section \<open>Bytes, text and the frame markers\<close>

text \<open>
  A Python \<open>bytes\<close> value is a list of 8-bit characters. The text that
  \<open>bytes.decode()\<close> returns is the list of its code points, any of U+0000 to U+10FFFF
  (\<open>unicode\<close>). The text of a command and the text the table parser reads are
  modelled on the code points U+0000 to U+00FF, one \<open>char\<close> per code point, so that
  \<open>length\<close> counts code points as \<open>len\<close> does (\<open>str\<close>).
\<close>

type_synonym bytes = "char list"
type_synonym unicode = "nat list"
type_synonym str = "char list"

definition CR :: char where "CR = CHR 0x0D"
definition LF :: char where "LF = CHR 0x0A"

text \<open>monitor.py, lines 14 to 16.\<close>

definition MARK_PROMPT :: bytes where
  "MARK_PROMPT = CR # ''pylon>''"

definition MARK_BEGIN :: bytes where
  "MARK_BEGIN = [LF, CR, CHR ''@'', CR, CR, LF]"

definition MARK_END :: bytes where
  "MARK_END = [CR, LF, CR] @ ''Command completed successfully'' @ [CR, LF, CR] @ ''$$''
     @ [CR, LF] @ MARK_PROMPT"

text \<open>
  \<open>str.encode()\<close> (UTF-8) on the code points of a command: a code point below U+0080
  is one byte, one from U+0080 to U+00FF is a lead byte \<open>0xC2\<close> or \<open>0xC3\<close> and one
  continuation byte.
\<close>

definition encode_char :: "char \<Rightarrow> bytes" where
  "encode_char c =
     (let n = (of_char c :: nat)
      in if n < 0x80 then [c]
         else [char_of (0xC0 + n div 0x40), char_of (0x80 + n mod 0x40)])"

definition encode :: "str \<Rightarrow> bytes" where
  "encode s = concat (map encode_char s)"

text \<open>
  \<open>bytes.decode()\<close> (UTF-8, strict): the code points of the well-formed sequences of
  one to four bytes, and \<open>None\<close> (Python's \<open>UnicodeDecodeError\<close>) when a byte starts
  no well-formed sequence. A continuation byte is \<open>0x80\<close> to \<open>0xBF\<close>. The second byte
  is narrowed after the lead bytes \<open>0xE0\<close> and \<open>0xF0\<close> (no overlong form), \<open>0xED\<close>
  (no surrogate) and \<open>0xF4\<close> (nothing above U+10FFFF); the lead bytes \<open>0xC0\<close>,
  \<open>0xC1\<close> and \<open>0xF5\<close> to \<open>0xFF\<close> start nothing.
\<close>

definition byte_in :: "nat \<Rightarrow> nat \<Rightarrow> char \<Rightarrow> bool" where
  "byte_in lo hi c \<longleftrightarrow> lo \<le> (of_char c :: nat) \<and> (of_char c :: nat) \<le> hi"

definition low6 :: "char \<Rightarrow> nat" where
  "low6 c = (of_char c :: nat) - 0x80"

fun decode :: "bytes \<Rightarrow> unicode option" where
  "decode [] = Some []"
| "decode (b # bs) =
     (let n = (of_char b :: nat)
      in if n < 0x80 then map_option ((#) n) (decode bs)
         else if 0xC2 \<le> n \<and> n \<le> 0xDF then
           (case bs of
              c1 # r \<Rightarrow>
                if byte_in 0x80 0xBF c1
                then map_option ((#) ((n - 0xC0) * 0x40 + low6 c1)) (decode r)
                else None
            | _ \<Rightarrow> None)
         else if 0xE0 \<le> n \<and> n \<le> 0xEF then
           (case bs of
              c1 # c2 # r \<Rightarrow>
                if byte_in (if n = 0xE0 then 0xA0 else 0x80) (if n = 0xED then 0x9F else 0xBF) c1
                   \<and> byte_in 0x80 0xBF c2
                then map_option ((#) ((n - 0xE0) * 0x1000 + low6 c1 * 0x40 + low6 c2)) (decode r)
                else None
            | _ \<Rightarrow> None)
         else if 0xF0 \<le> n \<and> n \<le> 0xF4 then
           (case bs of
              c1 # c2 # c3 # r \<Rightarrow>
                if byte_in (if n = 0xF0 then 0x90 else 0x80) (if n = 0xF4 then 0x8F else 0xBF) c1
                   \<and> byte_in 0x80 0xBF c2 \<and> byte_in 0x80 0xBF c3
                then map_option
                       ((#) ((n - 0xF0) * 0x40000 + low6 c1 * 0x1000 + low6 c2 * 0x40 + low6 c3))
                       (decode r)
                else None
            | _ \<Rightarrow> None)
         else None)"

text \<open>The code points of a text given one \<open>char\<close> per code point.\<close>

definition points :: "str \<Rightarrow> unicode" where
  "points s = map of_char s"

text \<open>\<open>bytes.rstrip()\<close> removes trailing ASCII whitespace: space, TAB, LF, VT, FF, CR.\<close>

definition is_bspace :: "char \<Rightarrow> bool" where
  "is_bspace c \<longleftrightarrow> c \<in> set [CHR '' '', CHR 0x09, CHR 0x0A, CHR 0x0B, CHR 0x0C, CHR 0x0D]"

definition brstrip :: "bytes \<Rightarrow> bytes" where
  "brstrip s = rev (dropWhile is_bspace (rev s))"

section \<open>Python indexing and slicing\<close>

text \<open>\<open>xs[i]\<close>: a negative index counts from the end; out of range is IndexError (\<open>None\<close>).\<close>

definition py_index :: "'a list \<Rightarrow> int \<Rightarrow> 'a option" where
  "py_index xs i =
     (let j = (if i < 0 then i + int (length xs) else i)
      in if j < 0 \<or> int (length xs) \<le> j then None else Some (xs ! nat j))"

text \<open>\<open>xs[a:b]\<close>: negative bounds count from the end, then both are clamped to the list.\<close>

definition py_bound :: "'a list \<Rightarrow> int \<Rightarrow> nat" where
  "py_bound xs i =
     (let j = (if i < 0 then i + int (length xs) else i)
      in nat (max 0 (min (int (length xs)) j)))"

definition py_slice :: "'a list \<Rightarrow> int \<Rightarrow> int \<Rightarrow> 'a list" where
  "py_slice xs a b = take (py_bound xs b - py_bound xs a) (drop (py_bound xs a) xs)"

section \<open>The transport\<close>

text \<open>
  One read of the transport, as the read loop sees it. For the socket, \<open>sock.recv(256)\<close>
  returns bytes (\<open>Data\<close>, possibly empty), raises \<open>socket.timeout\<close> (\<open>Timeout\<close>) or
  raises another error (\<open>Broken\<close>). For the character device, \<open>select\<close> reports nothing
  readable within its timeout (\<open>Timeout\<close>), or the descriptor is readable and
  \<open>os.read(file, 256)\<close> returns bytes (\<open>Data\<close>, possibly empty) or raises (\<open>Broken\<close>).
\<close>

datatype read_result = Timeout | Data bytes | Broken

datatype transport = Network | Serial

text \<open>
  One connection to the device: whether \<open>connect\<close> / \<open>os.open\<close> succeeds, whether the
  descriptor becomes writable within the timeout (consulted by the character device
  only), whether \<open>sendall\<close> / \<open>os.write\<close> completes, and the outcome of the n-th read.
\<close>

record session =
  opens :: bool
  writable :: bool
  written :: bool
  reads :: "nat \<Rightarrow> read_result"

datatype error =
    ConnectError
  | WriteTimeout
  | ReadTimeout
  | FrameCorrupt
  | OSError
  | UnicodeDecodeError
  | CommandFailed str
  | IndexError
  | KeyError
  | TableParseError str

section \<open>The framed protocol engine\<close>

text \<open>
  The read loop of \<open>network_command\<close> (lines 39 to 53) and of \<open>serial_command\<close>
  (lines 92 to 101). The socket loop counts an empty \<open>recv\<close> as idle; the device loop
  appends whatever \<open>os.read\<close> returns and counts only the \<open>select\<close> timeouts. Nothing
  bounds the number of iterations, so the loop is a partial function: \<open>None\<close> is a loop
  that never ends.
\<close>

partial_function (option) read_loop ::
  "transport \<Rightarrow> (nat \<Rightarrow> read_result) \<Rightarrow> bytes \<Rightarrow> nat \<Rightarrow> nat \<Rightarrow> bytes \<Rightarrow> (error + bytes) option"
where
  "read_loop k rd mark_end i timeout_counter response =
     (if \<not> sublist mark_end response then
        if timeout_counter > 5 then Some (Inl ReadTimeout)
        else (case rd i of
                Timeout \<Rightarrow> read_loop k rd mark_end (i + 1) (timeout_counter + 1) response
              | Data d \<Rightarrow>
                  if k = Network \<and> d = []
                  then read_loop k rd mark_end (i + 1) (timeout_counter + 1) response
                  else read_loop k rd mark_end (i + 1) timeout_counter (response @ d)
              | Broken \<Rightarrow> Some (Inl OSError))
      else Some (Inr response))"

text \<open>Lines 55 to 60 (103 to 108): trim, check the frame, cut the payload out, decode.\<close>

definition unframe :: "str \<Rightarrow> bool \<Rightarrow> bytes \<Rightarrow> bytes \<Rightarrow> error + unicode" where
  "unframe command checkframe mark_end response0 =
     (let response = brstrip response0
      in if checkframe then
           if \<not> (prefix (encode command @ MARK_BEGIN) response \<and> suffix mark_end response)
           then Inl FrameCorrupt
           else (case decode (py_slice response (int (length command) + int (length MARK_BEGIN))
                                (- int (length mark_end))) of
                   None \<Rightarrow> Inl UnicodeDecodeError
                 | Some t \<Rightarrow> Inr t)
         else (case decode response of None \<Rightarrow> Inl UnicodeDecodeError | Some t \<Rightarrow> Inr t))"

text \<open>
  The body of the outer \<open>try\<close> (lines 30 to 60, 82 to 108) on one connection: what it
  returns or which exception leaves it.
\<close>

definition attempt :: "transport \<Rightarrow> session \<Rightarrow> str \<Rightarrow> bool \<Rightarrow> (error + unicode) option" where
  "attempt k s command checkframe =
     (let mark_end = (if checkframe then MARK_END else MARK_PROMPT)
      in if \<not> opens s then Some (Inl ConnectError)
         else if k = Serial \<and> \<not> writable s then Some (Inl WriteTimeout)
         else if \<not> written s then Some (Inl OSError)
         else (case read_loop k (reads s) mark_end 0 0 [] of
                 None \<Rightarrow> None
               | Some (Inl e) \<Rightarrow> Some (Inl e)
               | Some (Inr response) \<Rightarrow> Some (unframe command checkframe mark_end response)))"

text \<open>
  The device as the engine meets it: the n-th connection it opens finds the n-th session.
  \<open>calls\<close> records every invocation with its arguments, in order (the place where the
  source prints ``Sending command'').
\<close>

datatype call = Call str int bool

record world =
  conns :: "nat \<Rightarrow> session"
  opened :: nat
  calls :: "call list"

text \<open>
  \<open>network_command\<close> and \<open>serial_command\<close> (lines 25 to 75 and 77 to 123) differ in the
  transport only. \<open>retries\<close> is a Python int and \<open>not retries\<close> holds for 0 alone. The
  retry of line 75 (123) passes \<open>command\<close> and \<open>retries - 1\<close> and leaves \<open>checkframe\<close>
  to its default, \<open>True\<close>.
\<close>

partial_function (option) command_exec ::
  "transport \<Rightarrow> world \<Rightarrow> str \<Rightarrow> int \<Rightarrow> bool \<Rightarrow> ((error + unicode) \<times> world) option"
where
  "command_exec k w command retries checkframe =
     (let w1 = w\<lparr>opened := opened w + 1, calls := calls w @ [Call command retries checkframe]\<rparr>
      in Option.bind (attempt k (conns w (opened w)) command checkframe)
           (\<lambda>r. case r of
                   Inr t \<Rightarrow> Some (Inr t, w1)
                 | Inl e \<Rightarrow>
                     if retries = 0 then Some (Inl (CommandFailed command), w1)
                     else Option.bind (command_exec k w1 [] 0 False)
                            (\<lambda>p. command_exec k (snd p) command (retries - 1) True)))"

definition network_command :: "world \<Rightarrow> str \<Rightarrow> int \<Rightarrow> bool \<Rightarrow> ((error + unicode) \<times> world) option"
where
  "network_command = command_exec Network"

definition serial_command :: "world \<Rightarrow> str \<Rightarrow> int \<Rightarrow> bool \<Rightarrow> ((error + unicode) \<times> world) option"
where
  "serial_command = command_exec Serial"

section \<open>The tabular parser\<close>

text \<open>
  \<open>str.isspace\<close> on the modelled code points: TAB to CR, the separators U+001C to
  U+001F, space, NEL (U+0085) and the no-break space (U+00A0). \<open>str.strip()\<close> and
  \<open>str.rstrip()\<close> remove these at the ends.
\<close>

definition is_space :: "char \<Rightarrow> bool" where
  "is_space c \<longleftrightarrow>
     (let n = (of_char c :: nat)
      in (9 \<le> n \<and> n \<le> 13) \<or> (28 \<le> n \<and> n \<le> 32) \<or> n = 133 \<or> n = 160)"

definition rstrip :: "str \<Rightarrow> str" where
  "rstrip s = rev (dropWhile is_space (rev s))"

definition strip :: "str \<Rightarrow> str" where
  "strip s = rstrip (dropWhile is_space s)"

text \<open>\<open>s.split(sep)\<close> for a one-character separator: always at least one piece.\<close>

fun split_from :: "char \<Rightarrow> str \<Rightarrow> str \<Rightarrow> str list" where
  "split_from sep cur [] = [cur]"
| "split_from sep cur (c # cs) =
     (if c = sep then cur # split_from sep [] cs else split_from sep (cur @ [c]) cs)"

definition py_split :: "char \<Rightarrow> str \<Rightarrow> str list" where
  "py_split sep s = split_from sep [] s"

text \<open>
  \<open>re.findall(r"([^ ]+ +)", s)\<close>: the successive matches of a maximal run of non-space
  characters followed by a maximal, non-empty run of spaces. \<open>m\<close> is the match being
  read: empty, a run of non-spaces, or such a run followed by spaces. A run of
  non-spaces that reaches the end of the string matches nothing.
\<close>

fun findall_from :: "str \<Rightarrow> str \<Rightarrow> str list" where
  "findall_from m [] = (if m \<noteq> [] \<and> last m = CHR '' '' then [m] else [])"
| "findall_from m (c # cs) =
     (if c = CHR '' '' then
        (if m = [] then findall_from [] cs else findall_from (m @ [c]) cs)
      else if m \<noteq> [] \<and> last m = CHR '' '' then m # findall_from [c] cs
      else findall_from (m @ [c]) cs)"

definition findall :: "str \<Rightarrow> str list" where
  "findall s = findall_from [] s"

text \<open>Lines 134 to 136: the column starts, from the header line.\<close>

definition colstart_of :: "str \<Rightarrow> int list" where
  "colstart_of header =
     foldl (\<lambda>colstart m. colstart @ [last colstart + int (length m)]) [0]
       (findall (rstrip header))"

text \<open>
  \<open>getcell\<close>, lines 138 to 146. The only exception it can raise is IndexError, which
  is \<open>None\<close> here.
\<close>

definition getcell :: "int list \<Rightarrow> str \<Rightarrow> nat \<Rightarrow> str option" where
  "getcell colstart line cellno =
     do {
       let linelen = int (length line);
       c1 \<leftarrow> py_index colstart (int cellno);
       let offset1 = min linelen c1;
       offset1 \<leftarrow>
         (if offset1 \<noteq> 0 then
            do { a \<leftarrow> py_index line (offset1 - 1);
                 Some (if a \<noteq> CHR '' '' then offset1 - 1 else offset1) }
          else Some offset1);
       c2 \<leftarrow>
         (if cellno + 1 < length colstart then py_index colstart (int cellno + 1)
          else Some (int (length line)));
       let offset2 = min linelen c2;
       b \<leftarrow> py_index line (offset2 - 1);
       let offset2 = (if b \<noteq> CHR '' '' then offset2 - 1 else offset2);
       Some (strip (py_slice line offset1 offset2))
     }"

text \<open>\<open>[getcell(line, i) for i in range(len(colstart))]\<close>\<close>

definition cells :: "int list \<Rightarrow> str \<Rightarrow> str list option" where
  "cells colstart line = those (map (getcell colstart line) [0..<length colstart])"

text \<open>
  A record is a Python dict with text keys: an association list in insertion order,
  where storing under a key that is present replaces the value in place.
\<close>

datatype val = Str str | Num int

type_synonym item = "(str \<times> val) list"

definition dict_of :: "(str \<times> val) list \<Rightarrow> item" where
  "dict_of kvs = foldl (\<lambda>d kv. AList.update (fst kv) (snd kv) d) [] kvs"

text \<open>
  \<open>int(s)\<close> for text, base 10: optional whitespace, an optional sign, decimal digits
  with single underscores allowed between digits, optional whitespace. On the modelled
  code points the digits are \<open>0\<close> to \<open>9\<close>, and the whitespace \<open>int\<close> accepts is TAB to
  CR, space, NEL and the no-break space. \<open>None\<close> is ValueError. (The interpreter's
  configurable limit on the number of digits is not modelled.)
\<close>

definition int_space :: "char \<Rightarrow> bool" where
  "int_space c \<longleftrightarrow>
     (let n = (of_char c :: nat) in (9 \<le> n \<and> n \<le> 13) \<or> n = 32 \<or> n = 133 \<or> n = 160)"

definition digit_val :: "char \<Rightarrow> nat option" where
  "digit_val c =
     (let n = (of_char c :: nat) in if 48 \<le> n \<and> n \<le> 57 then Some (n - 48) else None)"

fun digits :: "nat \<Rightarrow> str \<Rightarrow> (nat \<times> str) option" where
  "digits acc [] = Some (acc, [])"
| "digits acc [c] =
     (case digit_val c of
        Some d \<Rightarrow> Some (10 * acc + d, [])
      | None \<Rightarrow> if c = CHR ''_'' then None else Some (acc, [c]))"
| "digits acc (c # c' # cs) =
     (case digit_val c of
        Some d \<Rightarrow> digits (10 * acc + d) (c' # cs)
      | None \<Rightarrow>
          if c = CHR ''_'' then
            (case digit_val c' of None \<Rightarrow> None | Some d \<Rightarrow> digits (10 * acc + d) cs)
          else Some (acc, c # c' # cs))"

definition unsigned :: "str \<Rightarrow> int option" where
  "unsigned u =
     (case u of
        [] \<Rightarrow> None
      | c # cs \<Rightarrow>
          (case digit_val c of
             None \<Rightarrow> None
           | Some d \<Rightarrow>
               (case digits d cs of
                  None \<Rightarrow> None
                | Some (n, rest) \<Rightarrow> if list_all int_space rest then Some (int n) else None)))"

definition py_int :: "str \<Rightarrow> int option" where
  "py_int s =
     (case dropWhile int_space s of
        [] \<Rightarrow> None
      | c # cs \<Rightarrow>
          if c = CHR ''-'' then map_option uminus (unsigned cs)
          else if c = CHR ''+'' then unsigned cs
          else unsigned (c # cs))"

text \<open>\<open>int(x)\<close> for a value of a record: an int is returned as it is.\<close>

definition to_int :: "val \<Rightarrow> int option" where
  "to_int v = (case v of Num n \<Rightarrow> Some n | Str s \<Rightarrow> py_int s)"

text \<open>
  Lines 157 to 161, for one key: \<open>item[k] = int(item[k])\<close> with every exception
  (KeyError for a missing key, ValueError from \<open>int\<close>) swallowed.
\<close>

definition numeric_keys :: "str list" where
  "numeric_keys =
     [''Power'', ''Volt'', ''Curr'', ''Tempr'', ''Tlow'', ''Thigh'', ''Vlow'', ''Vhigh'',
      ''MosTempr'']"

definition coerce_key :: "str \<Rightarrow> item \<Rightarrow> item" where
  "coerce_key k item =
     (case map_of item k of
        None \<Rightarrow> item
      | Some v \<Rightarrow> (case to_int v of None \<Rightarrow> item | Some n \<Rightarrow> AList.update k (Num n) item))"

text \<open>
  Lines 162 to 165: \<open>item["Coulomb"] = int(item["Coulomb"][:-1])\<close>, every exception
  swallowed (KeyError, TypeError for a value that is not text, ValueError).
\<close>

definition coerce_coulomb :: "item \<Rightarrow> item" where
  "coerce_coulomb item =
     (case map_of item ''Coulomb'' of
        None \<Rightarrow> item
      | Some (Num n) \<Rightarrow> item
      | Some (Str s) \<Rightarrow>
          (case py_int (py_slice s 0 (- 1)) of
             None \<Rightarrow> item
           | Some n \<Rightarrow> AList.update ''Coulomb'' (Num n) item))"

definition coerce :: "item \<Rightarrow> item" where
  "coerce item = coerce_coulomb (foldl (\<lambda>it k. coerce_key k it) item numeric_keys)"

text \<open>
  The loop of lines 151 to 166 over the data lines. The first exception ends it:
  IndexError from \<open>getcell\<close>, KeyError from \<open>item["Base.St"]\<close>.
\<close>

fun rows :: "str list \<Rightarrow> int list \<Rightarrow> str list \<Rightarrow> error + item list" where
  "rows headers colstart [] = Inr []"
| "rows headers colstart (line # lines) =
     (case cells colstart line of
        None \<Rightarrow> Inl IndexError
      | Some values \<Rightarrow>
          (let item = dict_of (zip headers (map Str values))
           in case map_of item ''Base.St'' of
                None \<Rightarrow> Inl KeyError
              | Some st \<Rightarrow>
                  if st = Str ''Absent'' then rows headers colstart lines
                  else (case rows headers colstart lines of
                          Inl e \<Rightarrow> Inl e
                        | Inr items \<Rightarrow> Inr (coerce item # items))))"

text \<open>The \<open>try\<close> block of \<open>get_power\<close>, lines 132 to 168, on the response text.\<close>

definition parse_lines :: "str \<Rightarrow> error + item list" where
  "parse_lines response =
     (case py_split LF response of
        [] \<Rightarrow> Inl IndexError
      | header # lines \<Rightarrow>
          (let colstart = colstart_of header
           in case cells colstart header of
                None \<Rightarrow> Inl IndexError
              | Some headers \<Rightarrow> rows headers colstart lines))"

text \<open>
  With the handler of lines 169 and 170: any exception becomes the error that carries
  the response text. This is the parser the specification calls parsePowerTable.
\<close>

definition parsePowerTable :: "str \<Rightarrow> error + item list" where
  "parsePowerTable response =
     (case parse_lines response of
        Inl e \<Rightarrow> Inl (TableParseError response)
      | Inr items \<Rightarrow> Inr items)"


section \<open>Describing what a connection delivers\<close>

text \<open>The bytes the first \<open>n\<close> reads of a connection have returned, in order.\<close>

fun delivered :: "(nat \<Rightarrow> read_result) \<Rightarrow> nat \<Rightarrow> bytes" where
  "delivered rd 0 = []"
| "delivered rd (Suc n) =
     (case rd n of Data d \<Rightarrow> delivered rd n @ d | Timeout \<Rightarrow> delivered rd n
      | Broken \<Rightarrow> delivered rd n)"

text \<open>
  An idle read is one that times out or returns no bytes. \<open>counted k r\<close> holds for the
  reads on which the loop of transport \<open>k\<close> increments its counter.
\<close>

definition idle :: "read_result \<Rightarrow> bool" where
  "idle r \<longleftrightarrow> r = Timeout \<or> r = Data []"

definition counted :: "transport \<Rightarrow> read_result \<Rightarrow> bool" where
  "counted k r \<longleftrightarrow> r = Timeout \<or> (k = Network \<and> r = Data [])"

fun idle_count :: "transport \<Rightarrow> (nat \<Rightarrow> read_result) \<Rightarrow> nat \<Rightarrow> nat" where
  "idle_count k rd 0 = 0"
| "idle_count k rd (Suc n) = idle_count k rd n + (if counted k (rd n) then 1 else 0)"

text \<open>A connection whose reads follow a finite script and time out after it.\<close>

definition script :: "read_result list \<Rightarrow> nat \<Rightarrow> read_result" where
  "script rs i = (if i < length rs then rs ! i else Timeout)"

definition plain :: "read_result list \<Rightarrow> session" where
  "plain rs = \<lparr>opens = True, writable = True, written = True, reads = script rs\<rparr>"

definition refused :: session where
  "refused = \<lparr>opens = False, writable = False, written = False, reads = script []\<rparr>"

text \<open>A connection on which every read returns the same bytes, for ever.\<close>

definition dripping :: "bytes \<Rightarrow> session" where
  "dripping d = \<lparr>opens = True, writable = True, written = True, reads = (\<lambda>i. Data d)\<rparr>"

section \<open>Facts about the parser\<close>

lemma bind_weak_cong: "x = y \<Longrightarrow> Option.bind x f = Option.bind y f"
  by simp

lemmas parser_eval = parsePowerTable_def parse_lines_def py_split_def colstart_of_def
  findall_def rstrip_def strip_def is_space_def cells_def getcell_def py_index_def
  py_slice_def py_bound_def dict_of_def coerce_def coerce_key_def coerce_coulomb_def
  numeric_keys_def to_int_def py_int_def unsigned_def digit_val_def int_space_def LF_def
  CR_def Let_def

lemma py_slice_butlast: "py_slice s 0 (- 1) = butlast s"
  by (cases "s = []") (simp_all add: py_slice_def py_bound_def butlast_conv_take nat_diff_distrib')

lemma py_index_Nil: "py_index [] i = None"
  by (simp add: py_index_def)

lemma getcell_empty_line: "getcell colstart [] cellno = None"
  by (auto simp: getcell_def py_index_Nil Let_def split: Option.bind_splits)

lemma cells_empty_line: "colstart \<noteq> [] \<Longrightarrow> cells colstart [] = None"
  by (cases colstart) (simp_all add: cells_def upt_rec getcell_empty_line)

lemma foldl_snoc_Cons:
  "\<exists>t. foldl (\<lambda>colstart m. colstart @ [f colstart m]) (a # as) ms = a # t"
  by (induction ms arbitrary: as) auto

lemma colstart_of_nonempty: "colstart_of header \<noteq> []"
  using foldl_snoc_Cons [of "\<lambda>c m. last c + int (length m)" 0 "[]" "findall (rstrip header)"]
  by (auto simp: colstart_of_def)

lemma rows_empty_line:
  "colstart \<noteq> [] \<Longrightarrow> [] \<in> set lines \<Longrightarrow> \<exists>e. rows headers colstart lines = Inl e"
proof (induction lines)
  case Nil
  then show ?case by simp
next
  case (Cons line lines)
  show ?case
  proof (cases "line = []")
    case True
    with Cons.prems show ?thesis by (simp add: cells_empty_line)
  next
    case False
    with Cons.prems have "[] \<in> set lines" by auto
    with Cons obtain e where "rows headers colstart lines = Inl e" by blast
    then show ?thesis by (auto simp: Let_def split: option.splits)
  qed
qed

text \<open>
  Claim C10. A response text with an empty line after the header line makes the parser
  fail with the error that carries the response text: slicing the empty line reads the
  character before its right boundary, which does not exist, and the line is neither
  skipped nor turned into a record.
\<close>

theorem C10_empty_line_raises:
  assumes "[] \<in> set (tl (py_split LF response))"
  shows "parsePowerTable response = Inl (TableParseError response)"
proof -
  have "\<exists>e. parse_lines response = Inl e"
  proof (cases "py_split LF response")
    case Nil
    then show ?thesis by (simp add: parse_lines_def)
  next
    case (Cons header lines)
    with assms have "[] \<in> set lines" by simp
    then obtain e where "\<And>hs. \<exists>e. rows hs (colstart_of header) lines = Inl e"
      using rows_empty_line [OF colstart_of_nonempty] by blast
    then show ?thesis
      using Cons by (auto simp: parse_lines_def Let_def split: option.splits)
  qed
  then show ?thesis by (auto simp: parsePowerTable_def)
qed

theorem C10_empty_line_raises_witness:
  "[] \<in> set (tl (py_split LF (''Base.St Power'' @ [LF] @ [LF] @ ''Normal  120'')))
   \<and> parsePowerTable (''Base.St Power'' @ [LF] @ [LF] @ ''Normal  120'')
       = Inl (TableParseError (''Base.St Power'' @ [LF] @ [LF] @ ''Normal  120''))"
proof -
  have h: "[] \<in> set (tl (py_split LF (''Base.St Power'' @ [LF] @ [LF] @ ''Normal  120'')))"
    by (simp add: py_split_def LF_def)
  show ?thesis using h C10_empty_line_raises [OF h] by simp
qed

lemma map_of_coerce_key_other:
  "k' \<noteq> k \<Longrightarrow> map_of (coerce_key k item) k' = map_of item k'"
  by (simp add: coerce_key_def update_conv' split: option.splits)

lemma map_of_numeric_other:
  "k' \<notin> set ks \<Longrightarrow> map_of (foldl (\<lambda>it k. coerce_key k it) item ks) k' = map_of item k'"
  by (induction ks arbitrary: item) (auto simp: map_of_coerce_key_other)






text \<open>
  Claim C2, as the code has it. The right boundary of a cell moves one character to the
  left whenever the character before it is not a space, for the last column too. On the
  header \<open>Base.St Power Volt\<close> and the row \<open>Normal  120   480\<close>, which end in a
  non-space, the last column loses its last character: the record is
  \<open>Base.St = Normal, Power = 120, Vol = "48"\<close>. When both lines end in a space the
  record is \<open>Base.St = Normal, Power = 120, Volt = 480\<close>. The column starts inferred
  from the header are 0, 8 and 14.
\<close>

theorem C2_power_table_scenario:
  "parsePowerTable (''Base.St Power Volt'' @ [LF] @ ''Normal  120   480'')
     = Inr [[(''Base.St'', Str ''Normal''), (''Power'', Num 120), (''Vol'', Str ''48'')]]
   \<and> parsePowerTable (''Base.St Power Volt '' @ [LF] @ ''Normal  120   480 '')
     = Inr [[(''Base.St'', Str ''Normal''), (''Power'', Num 120), (''Volt'', Num 480)]]
   \<and> colstart_of ''Base.St Power Volt'' = [0, 8, 14]"
  by (simp add: parser_eval cong: bind_weak_cong)

text \<open>The record the claim C2 names is not the one the parser returns.\<close>

theorem C2_counterexample:
  "parsePowerTable (''Base.St Power Volt'' @ [LF] @ ''Normal  120   480'')
     \<noteq> Inr [[(''Base.St'', Str ''Normal''), (''Power'', Num 120), (''Volt'', Num 480)]]"
  by (simp add: parser_eval cong: bind_weak_cong)

text \<open>
  Claim C3, as the code has it. The coercion of the \<open>Coulomb\<close> field drops the last
  character of the text, whatever it is, and parses the rest: the field becomes that
  integer when the rest parses, and keeps its text when it does not. So \<open>4500C\<close>
  becomes 4500.
\<close>

theorem C3_coulomb_coercion:
  assumes "map_of item ''Coulomb'' = Some (Str s)"
  shows "map_of (coerce item) ''Coulomb''
     = Some (case py_int (butlast s) of Some n \<Rightarrow> Num n | None \<Rightarrow> Str s)"
proof -
  have "''Coulomb'' \<notin> set numeric_keys" by (simp add: numeric_keys_def)
  then have "map_of (foldl (\<lambda>it k. coerce_key k it) item numeric_keys) ''Coulomb''
      = Some (Str s)"
    using assms by (simp add: map_of_numeric_other)
  then show ?thesis
    by (simp add: coerce_def coerce_coulomb_def py_slice_butlast update_conv'
        split: option.splits)
qed

theorem C3_coulomb_coercion_witness:
  "map_of [(''Coulomb'', Str ''4500C'')] ''Coulomb'' = Some (Str ''4500C'')
   \<and> map_of (coerce [(''Coulomb'', Str ''4500C'')]) ''Coulomb'' = Some (Num 4500)"
proof -
  have h: "map_of [(''Coulomb'', Str ''4500C'')] ''Coulomb'' = Some (Str ''4500C'')" by simp
  have "py_int (butlast ''4500C'') = Some 4500"
    by (simp add: py_int_def unsigned_def digit_val_def int_space_def)
  with C3_coulomb_coercion [OF h] h show ?thesis by simp
qed

text \<open>Bare digits do not keep their text: \<open>4500\<close> loses its last digit and becomes 450.\<close>

theorem C3_counterexample:
  "map_of (coerce [(''Base.St'', Str ''Normal''), (''Coulomb'', Str ''4500'')]) ''Coulomb''
     = Some (Num 450)"
  by (simp add: parser_eval cong: bind_weak_cong)

section \<open>Facts about the read loop\<close>

lemma delivered_Suc_prefix: "prefix (delivered rd n) (delivered rd (Suc n))"
  by (simp split: read_result.splits)

lemma delivered_mono: "m \<le> n \<Longrightarrow> prefix (delivered rd m) (delivered rd n)"
proof (induction n)
  case 0
  then show ?case by simp
next
  case (Suc n)
  show ?case
  proof (cases "m = Suc n")
    case True
    then show ?thesis by simp
  next
    case False
    with Suc.prems have "m \<le> n" by simp
    then have "prefix (delivered rd m) (delivered rd n)" by (rule Suc.IH)
    then show ?thesis
      using delivered_Suc_prefix [of rd n] by (rule prefix_order.trans)
  qed
qed

lemma idle_count_mono: "m \<le> n \<Longrightarrow> idle_count k rd m \<le> idle_count k rd n"
  by (induction n) (auto simp: le_Suc_eq)

lemma read_loop_step:
  assumes "\<not> sublist mark (delivered rd n)" "idle_count k rd n \<le> 5" "rd n \<noteq> Broken"
  shows "read_loop k rd mark n (idle_count k rd n) (delivered rd n)
       = read_loop k rd mark (Suc n) (idle_count k rd (Suc n)) (delivered rd (Suc n))"
  using assms
  by (subst read_loop.simps) (auto simp: counted_def split: read_result.splits)

lemma read_loop_run:
  assumes "\<forall>m<n. \<not> sublist mark (delivered rd m) \<and> idle_count k rd m \<le> 5 \<and> rd m \<noteq> Broken"
  shows "read_loop k rd mark 0 0 [] = read_loop k rd mark n (idle_count k rd n) (delivered rd n)"
  using assms
proof (induction n)
  case 0
  show ?case by simp
next
  case (Suc n)
  then have "read_loop k rd mark 0 0 [] = read_loop k rd mark n (idle_count k rd n) (delivered rd n)"
    by simp
  also have "\<dots> = read_loop k rd mark (Suc n) (idle_count k rd (Suc n)) (delivered rd (Suc n))"
    using Suc.prems by (intro read_loop_step) auto
  finally show ?case .
qed

lemma read_loop_found:
  assumes "sublist mark (delivered rd n)"
    and "\<forall>m<n. \<not> sublist mark (delivered rd m) \<and> idle_count k rd m \<le> 5 \<and> rd m \<noteq> Broken"
  shows "read_loop k rd mark 0 0 [] = Some (Inr (delivered rd n))"
proof -
  have "read_loop k rd mark n (idle_count k rd n) (delivered rd n) = Some (Inr (delivered rd n))"
    using assms(1) by (subst read_loop.simps) simp
  with read_loop_run [OF assms(2)] show ?thesis by simp
qed

lemma read_loop_times_out:
  assumes idle: "5 < idle_count k rd n"
    and absent: "\<forall>m\<le>n. \<not> sublist mark (delivered rd m)"
    and sound: "\<forall>m<n. rd m \<noteq> Broken"
  shows "read_loop k rd mark 0 0 [] = Some (Inl ReadTimeout)"
proof -
  define n0 where "n0 = (LEAST m. 5 < idle_count k rd m)"
  have n0: "5 < idle_count k rd n0" unfolding n0_def using idle by (rule LeastI)
  have le: "n0 \<le> n" unfolding n0_def using idle by (rule Least_le)
  have before: "\<forall>m<n0. \<not> sublist mark (delivered rd m) \<and> idle_count k rd m \<le> 5 \<and> rd m \<noteq> Broken"
  proof (intro allI impI)
    fix m assume m: "m < n0"
    then have "\<not> 5 < idle_count k rd m" unfolding n0_def by (rule not_less_Least)
    with m le absent sound
    show "\<not> sublist mark (delivered rd m) \<and> idle_count k rd m \<le> 5 \<and> rd m \<noteq> Broken"
      by auto
  qed
  have "read_loop k rd mark n0 (idle_count k rd n0) (delivered rd n0) = Some (Inl ReadTimeout)"
    using n0 le absent by (subst read_loop.simps) simp
  with read_loop_run [OF before] show ?thesis by simp
qed

lemma read_loop_delivers:
  assumes whole: "delivered rd n = r"
    and ends: "suffix mark r"
    and once: "\<not> sublist mark (butlast r)"
    and idle: "idle_count k rd n \<le> 5"
    and sound: "\<forall>m<n. rd m \<noteq> Broken"
  shows "read_loop k rd mark 0 0 [] = Some (Inr r)"
proof -
  define n0 where "n0 = (LEAST m. sublist mark (delivered rd m))"
  have at_n: "sublist mark (delivered rd n)" using whole ends by auto
  have n0: "sublist mark (delivered rd n0)" unfolding n0_def using at_n by (rule LeastI)
  have le: "n0 \<le> n" unfolding n0_def using at_n by (rule Least_le)
  have before: "\<forall>m<n0. \<not> sublist mark (delivered rd m) \<and> idle_count k rd m \<le> 5 \<and> rd m \<noteq> Broken"
  proof (intro allI impI)
    fix m assume m: "m < n0"
    then have "\<not> sublist mark (delivered rd m)" unfolding n0_def by (rule not_less_Least)
    moreover have "idle_count k rd m \<le> 5"
      using idle_count_mono [of m n k rd] m le idle by simp
    ultimately show "\<not> sublist mark (delivered rd m) \<and> idle_count k rd m \<le> 5 \<and> rd m \<noteq> Broken"
      using m le sound by auto
  qed
  have pre: "prefix (delivered rd n0) r" using delivered_mono [OF le, of rd] whole by simp
  have "delivered rd n0 = r"
  proof (rule ccontr)
    assume ne: "delivered rd n0 \<noteq> r"
    with pre obtain zs where zs: "r = delivered rd n0 @ zs" "zs \<noteq> []"
      by (auto simp: prefix_def)
    then have "butlast r = delivered rd n0 @ butlast zs" by (simp add: butlast_append)
    then have "prefix (delivered rd n0) (butlast r)" by simp
    with n0 have "sublist mark (butlast r)"
      unfolding sublist_def prefix_def by (metis append.assoc)
    with once show False by simp
  qed
  with read_loop_found [OF n0 before] show ?thesis by simp
qed

section \<open>Facts about one attempt\<close>

lemma encode_ascii: "\<forall>c\<in>set s. (of_char c :: nat) < 128 \<Longrightarrow> encode s = s"
  by (induction s) (simp_all add: encode_def encode_char_def)

lemma brstrip_keeps: "s \<noteq> [] \<Longrightarrow> \<not> is_bspace (last s) \<Longrightarrow> brstrip s = s"
  by (cases s rule: rev_cases) (simp_all add: brstrip_def)

lemma MARK_END_nonempty: "MARK_END \<noteq> []"
  by (simp add: MARK_END_def)

lemma MARK_END_last: "\<not> is_bspace (last MARK_END)"
  by (simp add: MARK_END_def MARK_PROMPT_def is_bspace_def)

lemma py_slice_frame:
  "e \<noteq> [] \<Longrightarrow> py_slice (a @ p @ e) (int (length a)) (- int (length e)) = p"
  by (simp add: py_slice_def py_bound_def)

lemma unframe_well_formed:
  assumes "\<forall>c\<in>set command. (of_char c :: nat) < 128"
  shows "unframe command True MARK_END (encode command @ MARK_BEGIN @ payload @ MARK_END)
    = (case decode payload of None \<Rightarrow> Inl UnicodeDecodeError | Some t \<Rightarrow> Inr t)"
proof -
  let ?r = "encode command @ MARK_BEGIN @ payload @ MARK_END"
  have enc: "encode command = command" using assms by (rule encode_ascii)
  have "brstrip ?r = ?r"
    using MARK_END_nonempty MARK_END_last by (intro brstrip_keeps) simp_all
  moreover have "prefix (encode command @ MARK_BEGIN) ?r" by simp
  moreover have "suffix MARK_END ?r" by (simp add: suffix_def)
  moreover have "py_slice ?r (int (length command) + int (length MARK_BEGIN))
      (- int (length MARK_END)) = payload"
    using py_slice_frame [OF MARK_END_nonempty, of "command @ MARK_BEGIN" payload]
    by (simp add: enc)
  ultimately show ?thesis by (simp add: unframe_def)
qed

lemma attempt_reads:
  assumes "opens s" "written s" "k = Serial \<longrightarrow> writable s"
  shows "attempt k s command checkframe =
    (case read_loop k (reads s) (if checkframe then MARK_END else MARK_PROMPT) 0 0 [] of
       None \<Rightarrow> None
     | Some (Inl e) \<Rightarrow> Some (Inl e)
     | Some (Inr response) \<Rightarrow>
         Some (unframe command checkframe (if checkframe then MARK_END else MARK_PROMPT) response))"
  using assms by (auto simp: attempt_def)

section \<open>Facts about retrying\<close>

lemma command_exec_returns:
  assumes "attempt k (conns w (opened w)) command checkframe = Some (Inr t)"
  shows "command_exec k w command retries checkframe
    = Some (Inr t, w\<lparr>opened := opened w + 1, calls := calls w @ [Call command retries checkframe]\<rparr>)"
  using assms by (subst command_exec.simps) simp

lemma command_exec_gives_up:
  assumes "attempt k (conns w (opened w)) command checkframe = Some (Inl e)"
  shows "command_exec k w command 0 checkframe
    = Some (Inl (CommandFailed command),
        w\<lparr>opened := opened w + 1, calls := calls w @ [Call command 0 checkframe]\<rparr>)"
  using assms by (subst command_exec.simps) simp

lemma command_exec_retries:
  assumes "attempt k (conns w (opened w)) command checkframe = Some (Inl e)" "retries \<noteq> 0"
  shows "command_exec k w command retries checkframe
    = Option.bind
        (command_exec k
           (w\<lparr>opened := opened w + 1, calls := calls w @ [Call command retries checkframe]\<rparr>)
           [] 0 False)
        (\<lambda>p. command_exec k (snd p) command (retries - 1) True)"
  using assms by (subst command_exec.simps) simp

lemma command_exec_last_attempt:
  assumes "attempt k (conns w (opened w)) command checkframe = Some r"
  shows "\<exists>r'. command_exec k w command 0 checkframe
    = Some (r', w\<lparr>opened := opened w + 1, calls := calls w @ [Call command 0 checkframe]\<rparr>)"
  using assms by (subst command_exec.simps) (cases r; simp)

section \<open>The claims about the engine\<close>

lemmas engine_eval = attempt_def unframe_def brstrip_def is_bspace_def py_slice_def py_bound_def
  encode_def encode_char_def script_def plain_def refused_def MARK_END_def MARK_BEGIN_def
  MARK_PROMPT_def CR_def LF_def sublist_Cons_right suffix_to_prefix points_def byte_in_def
  low6_def

text \<open>
  Claim C1, as the code has it. Let the command be ASCII and the payload decode to the
  text \<open>t\<close>. If the connection opens and takes the command, its first \<open>n\<close> reads
  deliver exactly command + BEGIN + payload + END with at most 5 idle reads and no read
  error among them, and END occurs in these bytes at their end only, then the framed
  command returns \<open>t\<close> at the first attempt, whatever the number of retries. The loop
  stops at the first read after which the buffer contains END, so the condition on END
  cannot be dropped.
\<close>

theorem C1_well_formed_response:
  assumes ascii: "\<forall>c\<in>set command. (of_char c :: nat) < 128"
    and dec: "decode payload = Some t"
    and conn: "opens (conns w (opened w))" "written (conns w (opened w))"
      "k = Serial \<longrightarrow> writable (conns w (opened w))"
    and whole: "delivered (reads (conns w (opened w))) n
      = encode command @ MARK_BEGIN @ payload @ MARK_END"
    and once: "\<not> sublist MARK_END (butlast (encode command @ MARK_BEGIN @ payload @ MARK_END))"
    and idle: "idle_count k (reads (conns w (opened w))) n \<le> 5"
    and sound: "\<forall>m<n. reads (conns w (opened w)) m \<noteq> Broken"
  shows "command_exec k w command retries True
    = Some (Inr t, w\<lparr>opened := opened w + 1, calls := calls w @ [Call command retries True]\<rparr>)"
proof -
  let ?r = "encode command @ MARK_BEGIN @ payload @ MARK_END"
  have "suffix MARK_END ?r" by (simp add: suffix_def)
  with whole once idle sound
  have "read_loop k (reads (conns w (opened w))) MARK_END 0 0 [] = Some (Inr ?r)"
    by (intro read_loop_delivers [where n = n]) simp_all
  then have "attempt k (conns w (opened w)) command True = Some (Inr t)"
    using conn dec by (simp add: attempt_reads unframe_well_formed [OF ascii])
  then show ?thesis by (rule command_exec_returns)
qed

theorem C1_well_formed_response_witness:
  "command_exec Network
     \<lparr>conns = (\<lambda>i. plain [Data (''pwr'' @ MARK_BEGIN), Timeout,
                           Data (''ok'' @ [CHR 0xE2, CHR 0x82, CHR 0xAC] @ MARK_END)]),
      opened = 0, calls = []\<rparr> ''pwr'' 1 True
   = Some (Inr (points ''ok'' @ [0x20AC]),
       \<lparr>conns = (\<lambda>i. plain [Data (''pwr'' @ MARK_BEGIN), Timeout,
                             Data (''ok'' @ [CHR 0xE2, CHR 0x82, CHR 0xAC] @ MARK_END)]),
        opened = 1, calls = [Call ''pwr'' 1 True]\<rparr>)"
proof -
  let ?p = "''ok'' @ [CHR 0xE2, CHR 0x82, CHR 0xAC]"
  let ?w = "\<lparr>conns = (\<lambda>i. plain [Data (''pwr'' @ MARK_BEGIN), Timeout, Data (?p @ MARK_END)]),
      opened = 0, calls = []\<rparr>"
  have a: "\<forall>c\<in>set ''pwr''. (of_char c :: nat) < 128" by simp
  have d: "decode ?p = Some (points ''ok'' @ [0x20AC])"
    by (simp add: points_def byte_in_def low6_def)
  have w: "delivered (reads (conns ?w (opened ?w))) 3 = encode ''pwr'' @ MARK_BEGIN @ ?p @ MARK_END"
    by (simp add: plain_def script_def encode_def encode_char_def eval_nat_numeral)
  have o: "\<not> sublist MARK_END (butlast (encode ''pwr'' @ MARK_BEGIN @ ?p @ MARK_END))"
    by (simp add: engine_eval)
  have i: "idle_count Network (reads (conns ?w (opened ?w))) 3 \<le> 5"
    by (simp add: plain_def script_def counted_def eval_nat_numeral)
  have s: "\<forall>m<3. reads (conns ?w (opened ?w)) m \<noteq> Broken"
    by (simp add: plain_def script_def eval_nat_numeral less_Suc_eq)
  from C1_well_formed_response [of "''pwr''" ?p "points ''ok'' @ [0x20AC]" ?w Network 3 1,
      OF a d _ _ _ w o i s]
  show ?thesis by (simp add: plain_def)
qed

text \<open>
  A payload that contains END: the device sends command + BEGIN + payload + END in two
  reads, the first of which ends with the END inside the payload. The loop stops there
  and the command returns the part of the payload before it.
\<close>

theorem C1_counterexample:
  "delivered (script [Data (''pwr'' @ MARK_BEGIN @ ''a'' @ MARK_END), Data (''b'' @ MARK_END)]) 2
     = encode ''pwr'' @ MARK_BEGIN @ (''a'' @ MARK_END @ ''b'') @ MARK_END
   \<and> decode (''a'' @ MARK_END @ ''b'') = Some (points (''a'' @ MARK_END @ ''b''))
   \<and> map_option fst (command_exec Network
        \<lparr>conns = (\<lambda>i. plain [Data (''pwr'' @ MARK_BEGIN @ ''a'' @ MARK_END), Data (''b'' @ MARK_END)]),
         opened = 0, calls = []\<rparr> ''pwr'' 0 True)
     = Some (Inr (points ''a''))"
  apply (subst command_exec.simps)
  apply (simp add: engine_eval read_loop.simps eval_nat_numeral)
  done

text \<open>
  Claim C5, as the code has it. Let the connection open and take the command. If the
  terminator (END for a framed command, the prompt otherwise) never shows in what the
  reads deliver, no read fails before the \<open>n\<close>-th, and the first \<open>n\<close> reads contain six
  that the loop counts as idle, then the read loop raises the timeout; and a command
  with no retries left then fails with \<open>CommandFailed\<close> of the command. The timeout
  is the cause of that failure, not the error that leaves the command.
\<close>

theorem C5_read_timeout:
  assumes conn: "opens (conns w (opened w))" "written (conns w (opened w))"
      "k = Serial \<longrightarrow> writable (conns w (opened w))"
    and never: "\<forall>m. \<not> sublist (if checkframe then MARK_END else MARK_PROMPT)
        (delivered (reads (conns w (opened w))) m)"
    and idle: "5 < idle_count k (reads (conns w (opened w))) n"
    and sound: "\<forall>m<n. reads (conns w (opened w)) m \<noteq> Broken"
  shows "attempt k (conns w (opened w)) command checkframe = Some (Inl ReadTimeout)
     \<and> command_exec k w command 0 checkframe
       = Some (Inl (CommandFailed command),
           w\<lparr>opened := opened w + 1, calls := calls w @ [Call command 0 checkframe]\<rparr>)"
proof -
  have "read_loop k (reads (conns w (opened w)))
      (if checkframe then MARK_END else MARK_PROMPT) 0 0 [] = Some (Inl ReadTimeout)"
    using idle never sound by (intro read_loop_times_out [where n = n]) simp_all
  then have a: "attempt k (conns w (opened w)) command checkframe = Some (Inl ReadTimeout)"
    using conn by (simp add: attempt_reads)
  from a command_exec_gives_up [OF a] show ?thesis by simp
qed

theorem C5_read_timeout_witness:
  "attempt Network (plain [Data ''pw'']) ''pwr'' True = Some (Inl ReadTimeout)
   \<and> command_exec Network \<lparr>conns = (\<lambda>i. plain [Data ''pw'']), opened = 0, calls = []\<rparr>
        ''pwr'' 0 True
     = Some (Inl (CommandFailed ''pwr''),
         \<lparr>conns = (\<lambda>i. plain [Data ''pw'']), opened = 1, calls = [Call ''pwr'' 0 True]\<rparr>)"
proof -
  let ?w = "\<lparr>conns = (\<lambda>i. plain [Data ''pw'']), opened = 0, calls = []\<rparr>"
  have d: "delivered (script [Data ''pw'']) m = (if m = 0 then [] else ''pw'')" for m
    by (induction m) (simp_all add: script_def)
  have n: "\<forall>m. \<not> sublist (if True then MARK_END else MARK_PROMPT)
        (delivered (reads (conns ?w (opened ?w))) m)"
    by (simp add: plain_def d MARK_END_def sublist_Cons_right)
  have i: "5 < idle_count Network (reads (conns ?w (opened ?w))) 7"
    by (simp add: plain_def script_def counted_def eval_nat_numeral)
  have s: "\<forall>m<7. reads (conns ?w (opened ?w)) m \<noteq> Broken"
    by (simp add: plain_def script_def)
  from C5_read_timeout [of ?w Network True 7 "''pwr''", OF _ _ _ n i s]
  show ?thesis by (simp add: plain_def)
qed

text \<open>
  A connection that never answers: the error that leaves the command is not the timeout.
\<close>

theorem C5_counterexample:
  "map_option fst
     (command_exec Network \<lparr>conns = (\<lambda>i. plain []), opened = 0, calls = []\<rparr> ''pwr'' 0 True)
   = Some (Inl (CommandFailed ''pwr''))
   \<and> CommandFailed ''pwr'' \<noteq> ReadTimeout"
  apply (subst command_exec.simps)
  apply (simp add: engine_eval read_loop.simps eval_nat_numeral)
  done

text \<open>
  Claim C6, as the code has it. Let the connection open and take the command, and let the
  buffer contain END for the first time after \<open>n\<close> reads (at most 5 idle, none failing).
  If the buffer, trimmed of trailing whitespace, does not both start with
  command + BEGIN and end with END, the frame check raises \<open>FrameCorrupt\<close>; and a framed
  command with no retries left then fails with \<open>CommandFailed\<close> of the command.
\<close>

theorem C6_frame_corrupt:
  assumes conn: "opens (conns w (opened w))" "written (conns w (opened w))"
      "k = Serial \<longrightarrow> writable (conns w (opened w))"
    and found: "sublist MARK_END (delivered (reads (conns w (opened w))) n)"
    and first: "\<forall>m<n. \<not> sublist MARK_END (delivered (reads (conns w (opened w))) m)"
    and idle: "idle_count k (reads (conns w (opened w))) n \<le> 5"
    and sound: "\<forall>m<n. reads (conns w (opened w)) m \<noteq> Broken"
    and corrupt: "\<not> (prefix (encode command @ MARK_BEGIN)
          (brstrip (delivered (reads (conns w (opened w))) n))
        \<and> suffix MARK_END (brstrip (delivered (reads (conns w (opened w))) n)))"
  shows "attempt k (conns w (opened w)) command True = Some (Inl FrameCorrupt)
     \<and> command_exec k w command 0 True
       = Some (Inl (CommandFailed command),
           w\<lparr>opened := opened w + 1, calls := calls w @ [Call command 0 True]\<rparr>)"
proof -
  let ?rd = "reads (conns w (opened w))"
  have "\<forall>m<n. \<not> sublist MARK_END (delivered ?rd m) \<and> idle_count k ?rd m \<le> 5 \<and> ?rd m \<noteq> Broken"
  proof (intro allI impI)
    fix m assume m: "m < n"
    then have "idle_count k ?rd m \<le> idle_count k ?rd n" by (intro idle_count_mono) simp
    with m first idle sound
    show "\<not> sublist MARK_END (delivered ?rd m) \<and> idle_count k ?rd m \<le> 5 \<and> ?rd m \<noteq> Broken"
      by auto
  qed
  with found have "read_loop k ?rd MARK_END 0 0 [] = Some (Inr (delivered ?rd n))"
    by (rule read_loop_found)
  then have a: "attempt k (conns w (opened w)) command True = Some (Inl FrameCorrupt)"
    using conn corrupt by (auto simp: attempt_reads unframe_def)
  from a command_exec_gives_up [OF a] show ?thesis by simp
qed

theorem C6_frame_corrupt_witness:
  "attempt Network (plain [Data (''xyz'' @ MARK_END)]) ''pwr'' True = Some (Inl FrameCorrupt)
   \<and> command_exec Network
        \<lparr>conns = (\<lambda>i. plain [Data (''xyz'' @ MARK_END)]), opened = 0, calls = []\<rparr> ''pwr'' 0 True
     = Some (Inl (CommandFailed ''pwr''),
         \<lparr>conns = (\<lambda>i. plain [Data (''xyz'' @ MARK_END)]), opened = 1,
          calls = [Call ''pwr'' 0 True]\<rparr>)"
proof -
  let ?w = "\<lparr>conns = (\<lambda>i. plain [Data (''xyz'' @ MARK_END)]), opened = 0, calls = []\<rparr>"
  have f: "sublist MARK_END (delivered (reads (conns ?w (opened ?w))) 1)"
    by (simp add: plain_def script_def sublist_Cons_right)
  have b: "\<forall>m<1. \<not> sublist MARK_END (delivered (reads (conns ?w (opened ?w))) m)"
    by (simp add: MARK_END_def)
  have i: "idle_count Network (reads (conns ?w (opened ?w))) 1 \<le> 5"
    by (simp add: plain_def script_def counted_def)
  have s: "\<forall>m<1. reads (conns ?w (opened ?w)) m \<noteq> Broken"
    by (simp add: plain_def script_def)
  have c: "\<not> (prefix (encode ''pwr'' @ MARK_BEGIN)
          (brstrip (delivered (reads (conns ?w (opened ?w))) 1))
        \<and> suffix MARK_END (brstrip (delivered (reads (conns ?w (opened ?w))) 1)))"
    by (simp add: engine_eval)
  from C6_frame_corrupt [of ?w Network 1 "''pwr''", OF _ _ _ f b i s c]
  show ?thesis by (simp add: plain_def)
qed

text \<open>
  A response with END and without the echo and BEGIN: the error that leaves the command
  is not \<open>FrameCorrupt\<close>.
\<close>

theorem C6_counterexample:
  "map_option fst
     (command_exec Network
        \<lparr>conns = (\<lambda>i. plain [Data (''xyz'' @ MARK_END)]), opened = 0, calls = []\<rparr> ''pwr'' 0 True)
   = Some (Inl (CommandFailed ''pwr''))
   \<and> CommandFailed ''pwr'' \<noteq> FrameCorrupt"
  apply (subst command_exec.simps)
  apply (simp add: engine_eval read_loop.simps eval_nat_numeral)
  done

text \<open>
  One failed attempt with one retry left: the probe runs on the next connection, and the
  command goes on as a framed command without retries on the one after it.
\<close>

lemma command_exec_hangs:
  assumes "attempt k (conns w (opened w)) command checkframe = None"
  shows "command_exec k w command retries checkframe = None"
  using assms by (subst command_exec.simps) simp

lemma command_exec_one_retry:
  assumes first: "attempt k (conns w (opened w)) command checkframe = Some (Inl e)"
  shows "command_exec k w command 1 checkframe
    = (case attempt k (conns w (opened w + 1)) [] False of
         None \<Rightarrow> None
       | Some r \<Rightarrow>
           command_exec k
             (w\<lparr>opened := opened w + 2,
                calls := calls w @ [Call command 1 checkframe, Call [] 0 False]\<rparr>)
             command 0 True)"
proof (cases "attempt k (conns w (opened w + 1)) [] False")
  let ?w1 = "w\<lparr>opened := opened w + 1, calls := calls w @ [Call command 1 checkframe]\<rparr>"
  case None
  then have "attempt k (conns ?w1 (opened ?w1)) [] False = None" by simp
  then have "command_exec k ?w1 [] 0 False = None" by (rule command_exec_hangs)
  then show ?thesis
    using command_exec_retries [OF first, of 1] None by simp
next
  let ?w1 = "w\<lparr>opened := opened w + 1, calls := calls w @ [Call command 1 checkframe]\<rparr>"
  case (Some r)
  then have "attempt k (conns ?w1 (opened ?w1)) [] False = Some r" by simp
  from command_exec_last_attempt [OF this] obtain r' where
    "command_exec k ?w1 [] 0 False
       = Some (r', ?w1\<lparr>opened := opened ?w1 + 1, calls := calls ?w1 @ [Call [] 0 False]\<rparr>)"
    by blast
  then show ?thesis
    using command_exec_retries [OF first, of 1] Some by simp
qed

text \<open>
  Claim C7, as the code has it. With one retry left, let the first attempt fail and let
  the second attempt, on the third connection, succeed with a payload. The recovery
  probe (the empty command, unframed, without retries) runs once, between the two, on
  the second connection. If the probe returns, with a result or with an error, the
  command returns the payload, having opened three connections and made three calls:
  itself, the probe, and the retry. If the probe never returns, because its reads
  never show the prompt and never count six idle reads, the command never returns.
\<close>

theorem C7_retry_once:
  assumes first: "attempt k (conns w (opened w)) command checkframe = Some (Inl e)"
    and second: "attempt k (conns w (opened w + 2)) command True = Some (Inr payload)"
  shows "command_exec k w command 1 checkframe
    = (case attempt k (conns w (opened w + 1)) [] False of
         None \<Rightarrow> None
       | Some r \<Rightarrow>
           Some (Inr payload,
             w\<lparr>opened := opened w + 3,
               calls := calls w
                 @ [Call command 1 checkframe, Call [] 0 False, Call command 0 True]\<rparr>))"
proof -
  let ?w2 = "w\<lparr>opened := opened w + 2,
    calls := calls w @ [Call command 1 checkframe, Call [] 0 False]\<rparr>"
  have "attempt k (conns ?w2 (opened ?w2)) command True = Some (Inr payload)"
    using second by simp
  from command_exec_returns [OF this, of 0] show ?thesis
    by (simp add: command_exec_one_retry [OF first] split: option.splits)
qed

theorem C7_retry_once_witness:
  "command_exec Network
     \<lparr>conns = (\<lambda>i. if i = 2 then plain [Data (''pwr'' @ MARK_BEGIN @ ''ok'' @ MARK_END)]
                    else refused),
      opened = 0, calls = []\<rparr> ''pwr'' 1 True
   = Some (Inr (points ''ok''),
       \<lparr>conns = (\<lambda>i. if i = 2 then plain [Data (''pwr'' @ MARK_BEGIN @ ''ok'' @ MARK_END)]
                      else refused),
        opened = 3, calls = [Call ''pwr'' 1 True, Call [] 0 False, Call ''pwr'' 0 True]\<rparr>)"
proof -
  let ?w = "\<lparr>conns = (\<lambda>i. if i = 2 then plain [Data (''pwr'' @ MARK_BEGIN @ ''ok'' @ MARK_END)]
                    else refused), opened = 0, calls = []\<rparr>"
  have a: "attempt Network (conns ?w (opened ?w)) ''pwr'' True = Some (Inl ConnectError)"
    by (simp add: attempt_def refused_def)
  have b: "attempt Network (conns ?w (opened ?w + 1)) [] False = Some (Inl ConnectError)"
    by (simp add: attempt_def refused_def)
  have c: "attempt Network (conns ?w (opened ?w + 2)) ''pwr'' True = Some (Inr (points ''ok''))"
    by (simp add: engine_eval read_loop.simps)
  from C7_retry_once [OF a c] b show ?thesis by simp
qed

text \<open>
  Claim C4 at a failing input. The first two connections are refused and the third
  delivers \<open>x\<close> and the prompt, a response that an unframed attempt accepts. An unframed
  command with one retry fails on it: the retry of line 75 (123) does not pass
  \<open>checkframe\<close> on, so it runs framed, waits for END until the reads time out, and
  the command fails. The calls made are the command (unframed), the probe, and the
  command again, framed.
\<close>

theorem C4_retry_is_framed:
  "attempt Network (plain [Data (''x'' @ MARK_PROMPT)]) ''info'' False
     = Some (Inr (points (''x'' @ MARK_PROMPT)))
   \<and> map_option (\<lambda>p. (fst p, calls (snd p)))
       (command_exec Network
          \<lparr>conns = (\<lambda>i. if i = 2 then plain [Data (''x'' @ MARK_PROMPT)] else refused),
           opened = 0, calls = []\<rparr> ''info'' 1 False)
     = Some (Inl (CommandFailed ''info''),
         [Call ''info'' 1 False, Call [] 0 False, Call ''info'' 0 True])"
proof -
  let ?w = "\<lparr>conns = (\<lambda>i. if i = 2 then plain [Data (''x'' @ MARK_PROMPT)] else refused),
           opened = 0, calls = []\<rparr>"
  let ?w2 = "?w\<lparr>opened := opened ?w + 2,
    calls := calls ?w @ [Call ''info'' 1 False, Call [] 0 False]\<rparr>"
  have u: "attempt Network (plain [Data (''x'' @ MARK_PROMPT)]) ''info'' False
     = Some (Inr (points (''x'' @ MARK_PROMPT)))"
    by (simp add: engine_eval read_loop.simps)
  have a: "attempt Network (conns ?w (opened ?w)) ''info'' False = Some (Inl ConnectError)"
    by (simp add: attempt_def refused_def)
  have b: "attempt Network (conns ?w (opened ?w + 1)) [] False = Some (Inl ConnectError)"
    by (simp add: attempt_def refused_def)
  have c: "attempt Network (conns ?w2 (opened ?w2)) ''info'' True = Some (Inl ReadTimeout)"
    by (simp add: engine_eval read_loop.simps eval_nat_numeral)
  have "command_exec Network ?w ''info'' 1 False = command_exec Network ?w2 ''info'' 0 True"
    using command_exec_one_retry [OF a] b by simp
  also have "\<dots> = Some (Inl (CommandFailed ''info''),
      ?w2\<lparr>opened := opened ?w2 + 1, calls := calls ?w2 @ [Call ''info'' 0 True]\<rparr>)"
    by (rule command_exec_gives_up [OF c])
  finally show ?thesis using u by simp
qed

section \<open>A loop that never ends\<close>

text \<open>
  If the terminator never shows in what the reads deliver, the loop never counts more
  than five idle reads and no read fails, the loop does not return: nothing else stops
  it. A device that keeps sending bytes without the terminator is one case; a character
  device whose reads keep returning no bytes is another, because the device loop does
  not count them.
\<close>

lemma read_loop_never_returns:
  assumes absent: "\<And>n. \<not> sublist mark (delivered rd n)"
    and idle: "\<And>n. idle_count k rd n \<le> 5"
    and sound: "\<And>n. rd n \<noteq> Broken"
  shows "read_loop k rd mark 0 0 [] = None"
proof (cases "read_loop k rd mark 0 0 []")
  case None
  then show ?thesis .
next
  case (Some y)
  let ?P = "\<lambda>k' rd' m' i c r (y :: error + bytes).
    \<not> (k' = k \<and> rd' = rd \<and> m' = mark \<and> c = idle_count k rd i \<and> r = delivered rd i)"
  have "?P k rd mark 0 0 [] y"
  proof (rule read_loop.raw_induct [where P = ?P, OF _ Some])
    fix f k' rd' m' i c r y'
    assume IH: "\<And>k'' rd'' m'' i' c' r' y''. f k'' rd'' m'' i' c' r' = Some y'' \<Longrightarrow> ?P k'' rd'' m'' i' c' r' y''"
    assume body: "(if \<not> sublist m' r
      then if 5 < c then Some (Inl ReadTimeout)
           else case rd' i of
                Timeout \<Rightarrow> f k' rd' m' (i + 1) (c + 1) r
                | Data d \<Rightarrow>
                    if k' = Network \<and> d = []
                    then f k' rd' m' (i + 1) (c + 1) r
                    else f k' rd' m' (i + 1) c (r @ d)
                | Broken \<Rightarrow> Some (Inl OSError)
      else Some (Inr r)) = Some y'"
    show "?P k' rd' m' i c r y'"
    proof (intro notI, elim conjE)
      assume eqs: "k' = k" "rd' = rd" "m' = mark" "c = idle_count k rd i" "r = delivered rd i"
      have nc: "\<not> 5 < c" using idle [of i] eqs by simp
      have ns: "\<not> sublist m' r" using absent [of i] eqs by simp
      show False
      proof (cases "rd i")
        case Timeout
        with body eqs nc ns have "f k rd mark (Suc i) (Suc c) r = Some y'" by simp
        from IH [OF this] show False using eqs Timeout by (simp add: counted_def)
      next
        case (Data d)
        show False
        proof (cases "k = Network \<and> d = []")
          case True
          with body eqs nc ns Data have "f k rd mark (Suc i) (Suc c) r = Some y'" by simp
          from IH [OF this] show False using eqs Data True by (simp add: counted_def)
        next
          case False
          with body eqs nc ns Data have "f k rd mark (Suc i) c (r @ d) = Some y'" by auto
          from IH [OF this] show False using eqs Data False by (auto simp: counted_def)
        qed
      next
        case Broken
        with sound [of i] show False by simp
      qed
    qed
  qed
  then show ?thesis by simp
qed

lemma attempt_never_returns:
  assumes "opens s" "written s" "k = Serial \<longrightarrow> writable s"
    and "\<And>n. \<not> sublist (if checkframe then MARK_END else MARK_PROMPT) (delivered (reads s) n)"
    and "\<And>n. idle_count k (reads s) n \<le> 5"
    and "\<And>n. reads s n \<noteq> Broken"
  shows "attempt k s command checkframe = None"
  using assms(1-3) read_loop_never_returns [OF assms(4-6)]
  by (simp add: attempt_reads)

lemma delivered_nothing: "delivered (\<lambda>i. Data []) n = []"
  by (induction n) simp_all

lemma idle_count_serial_empty: "idle_count Serial (\<lambda>i. Data []) n = 0"
  by (induction n) (simp_all add: counted_def)

lemma set_delivered_dripping: "set (delivered (\<lambda>i. Data d) n) \<subseteq> set d"
  by (induction n) simp_all

lemma idle_count_dripping: "d \<noteq> [] \<Longrightarrow> idle_count k (\<lambda>i. Data d) n = 0"
  by (induction n) (simp_all add: counted_def)

lemma no_prompt_in_dripping: "\<not> sublist MARK_PROMPT (delivered (\<lambda>i. Data ''x'') n)"
proof
  assume "sublist MARK_PROMPT (delivered (\<lambda>i. Data ''x'') n)"
  then have "set MARK_PROMPT \<subseteq> set (delivered (\<lambda>i. Data ''x'') n)"
    by (rule set_mono_sublist)
  then have "set MARK_PROMPT \<subseteq> set ''x''"
    using set_delivered_dripping [of "''x''" n] by (rule subset_trans)
  then show False by (simp add: MARK_PROMPT_def CR_def)
qed

lemma probe_never_returns: "attempt k (dripping ''x'') [] False = None"
proof (rule attempt_never_returns)
  show "opens (dripping ''x'')" "written (dripping ''x'')"
    "k = Serial \<longrightarrow> writable (dripping ''x'')"
    by (simp_all add: dripping_def)
  show "\<not> sublist (if False then MARK_END else MARK_PROMPT) (delivered (reads (dripping ''x'')) n)"
    for n using no_prompt_in_dripping [of n] by (simp add: dripping_def)
  show "idle_count k (reads (dripping ''x'')) n \<le> 5" for n
    by (simp add: dripping_def idle_count_dripping)
  show "reads (dripping ''x'') n \<noteq> Broken" for n
    by (simp add: dripping_def)
qed

text \<open>
  The claim C7 as stated fails when the probe never returns. The first connection is
  refused, the second keeps sending the byte \<open>x\<close>, and the third would answer the
  command with a whole frame: the command with one retry never returns.
\<close>

theorem C7_counterexample:
  "attempt Network refused ''pwr'' True = Some (Inl ConnectError)
   \<and> attempt Network (plain [Data (''pwr'' @ MARK_BEGIN @ ''ok'' @ MARK_END)]) ''pwr'' True
       = Some (Inr (points ''ok''))
   \<and> command_exec Network
       \<lparr>conns = (\<lambda>i. if i = 0 then refused
                      else if i = 1 then dripping ''x''
                      else plain [Data (''pwr'' @ MARK_BEGIN @ ''ok'' @ MARK_END)]),
        opened = 0, calls = []\<rparr> ''pwr'' 1 True
     = None"
proof -
  let ?w = "\<lparr>conns = (\<lambda>i. if i = 0 then refused
                      else if i = 1 then dripping ''x''
                      else plain [Data (''pwr'' @ MARK_BEGIN @ ''ok'' @ MARK_END)]),
        opened = 0, calls = []\<rparr>"
  have a: "attempt Network refused ''pwr'' True = Some (Inl ConnectError)"
    by (simp add: attempt_def refused_def)
  have c: "attempt Network (plain [Data (''pwr'' @ MARK_BEGIN @ ''ok'' @ MARK_END)]) ''pwr'' True
       = Some (Inr (points ''ok''))"
    by (simp add: engine_eval read_loop.simps)
  have a': "attempt Network (conns ?w (opened ?w)) ''pwr'' True = Some (Inl ConnectError)"
    using a by simp
  have "command_exec Network ?w ''pwr'' 1 True = None"
    using command_exec_one_retry [OF a'] probe_never_returns [of Network] by simp
  with a c show ?thesis by simp
qed

lemma counted_network: "counted Network r \<longleftrightarrow> idle r"
  by (simp add: counted_def idle_def)

lemma counted_serial: "counted Serial r \<longleftrightarrow> r = Timeout"
  by (simp add: counted_def)

text \<open>
  Claim C9 at a failing input. On the character device every read returns no bytes
  (the descriptor is readable and \<open>os.read\<close> returns the empty bytes, as at end of
  file): these are idle reads, the device loop does not count them and never returns,
  while the socket loop counts them and raises the timeout at the sixth. Six such reads
  followed by a whole frame: the device loop returns the frame, although more than five
  idle reads have passed.
\<close>

theorem C9_serial_empty_reads:
  "read_loop Serial (\<lambda>i. Data []) MARK_END 0 0 [] = None
   \<and> read_loop Network (\<lambda>i. Data []) MARK_END 0 0 [] = Some (Inl ReadTimeout)
   \<and> read_loop Serial
        (script (replicate 6 (Data []) @ [Data (''pwr'' @ MARK_BEGIN @ ''ok'' @ MARK_END)]))
        MARK_END 0 0 []
      = Some (Inr (''pwr'' @ MARK_BEGIN @ ''ok'' @ MARK_END))"
proof (intro conjI)
  show "read_loop Serial (\<lambda>i. Data []) MARK_END 0 0 [] = None"
    by (rule read_loop_never_returns)
      (simp_all add: delivered_nothing idle_count_serial_empty MARK_END_nonempty)
  show "read_loop Network (\<lambda>i. Data []) MARK_END 0 0 [] = Some (Inl ReadTimeout)"
    by (rule read_loop_times_out [where n = 6])
      (simp_all add: delivered_nothing MARK_END_nonempty counted_def eval_nat_numeral)
  show "read_loop Serial
        (script (replicate 6 (Data []) @ [Data (''pwr'' @ MARK_BEGIN @ ''ok'' @ MARK_END)]))
        MARK_END 0 0 []
      = Some (Inr (''pwr'' @ MARK_BEGIN @ ''ok'' @ MARK_END))"
    by (simp add: read_loop.simps engine_eval eval_nat_numeral)
qed

end
